theory Spec2Isabelle
  imports Complex_Main
begin

section \<open>Python strings and lists\<close>

text \<open>
  A Python \<open>str\<close> is a sequence of Unicode code points, and \<open>len\<close> counts code points.
  A string is therefore modelled as a list of code points (natural numbers); \<open>str\<close> turns
  a literal of the source into such a list.
\<close>

type_synonym pystr = "nat list"

definition str :: "string \<Rightarrow> pystr" where
  "str s = map of_char s"

text \<open>
  \<open>isspace\<close> is the whitespace test that \<open>str.split()\<close> and \<open>str.strip()\<close> use when they are
  called without an argument: the code points for which \<open>str.isspace\<close> holds.
\<close>

definition isspace :: "nat \<Rightarrow> bool" where
  "isspace c \<longleftrightarrow>
     (9 \<le> c \<and> c \<le> 13) \<or> (28 \<le> c \<and> c \<le> 32) \<or> c = 133 \<or> c = 160 \<or> c = 5760 \<or>
     (8192 \<le> c \<and> c \<le> 8202) \<or> c = 8232 \<or> c = 8233 \<or> c = 8239 \<or> c = 8287 \<or> c = 12288"

text \<open>
  \<open>text.split()\<close>: the maximal runs of non-whitespace code points, in order. \<open>split_aux w cs\<close>
  scans \<open>cs\<close> with the word \<open>w\<close> read so far.
\<close>

fun split_aux :: "pystr \<Rightarrow> pystr \<Rightarrow> pystr list" where
  "split_aux w [] = (if w = [] then [] else [w])"
| "split_aux w (c # cs) =
     (if isspace c then (if w = [] then split_aux [] cs else w # split_aux [] cs)
      else split_aux (w @ [c]) cs)"

definition split :: "pystr \<Rightarrow> pystr list" where
  "split s = split_aux [] s"

text \<open>\<open>sep.join(ws)\<close>.\<close>

fun join :: "pystr \<Rightarrow> pystr list \<Rightarrow> pystr" where
  "join sep [] = []"
| "join sep [w] = w"
| "join sep (w # v # ws) = w @ sep @ join sep (v # ws)"

text \<open>\<open>s.strip()\<close>: whitespace removed at both ends.\<close>

definition strip :: "pystr \<Rightarrow> pystr" where
  "strip s = rev (dropWhile isspace (rev (dropWhile isspace s)))"

text \<open>
  \<open>xs[i:j]\<close> for integers \<open>i\<close> and \<open>j\<close>: a negative bound counts from the end, and both
  bounds are clipped to the list.
\<close>

definition slice_bound :: "nat \<Rightarrow> int \<Rightarrow> nat" where
  "slice_bound n i = (if i < 0 then nat (max 0 (i + int n)) else min (nat i) n)"

definition slice :: "'a list \<Rightarrow> int \<Rightarrow> int \<Rightarrow> 'a list" where
  "slice xs i j =
     (let lo = slice_bound (length xs) i; hi = slice_bound (length xs) j
      in take (hi - lo) (drop lo xs))"

text \<open>
  \<open>xs[i]\<close> for an integer \<open>i\<close>: a negative index counts from the end, and an index outside
  the list raises \<open>IndexError\<close>.
\<close>

datatype error = ValueError | IndexError | AssertionError | AttributeError

definition getitem :: "'a list \<Rightarrow> int \<Rightarrow> error + 'a" where
  "getitem xs i =
     (let n = int (length xs); j = (if i < 0 then i + n else i)
      in if 0 \<le> j \<and> j < n then Inr (xs ! nat j) else Inl IndexError)"

text \<open>
  \<open>range(start, stop, step)\<close>, as the list of the values it yields. A zero step raises
  \<open>ValueError\<close> when the range is built, before any iteration.
\<close>

function range_up :: "int \<Rightarrow> int \<Rightarrow> int \<Rightarrow> int list" where
  "range_up i stop step =
     (if 0 < step \<and> i < stop then i # range_up (i + step) stop step else [])"
  by pat_completeness auto
termination
  by (relation "measure (\<lambda>(i, stop, step). nat (stop - i))") auto

function range_down :: "int \<Rightarrow> int \<Rightarrow> int \<Rightarrow> int list" where
  "range_down i stop step =
     (if step < 0 \<and> stop < i then i # range_down (i + step) stop step else [])"
  by pat_completeness auto
termination
  by (relation "measure (\<lambda>(i, stop, step). nat (i - stop))") auto

definition range3 :: "int \<Rightarrow> int \<Rightarrow> int \<Rightarrow> error + int list" where
  "range3 start stop step =
     (if step = 0 then Inl ValueError
      else if 0 < step then Inr (range_up start stop step)
      else Inr (range_down start stop step))"

section \<open>The chunker\<close>

text \<open>
  \<open>RAGSystem.chunk_text\<close>. \<open>chunk_loop\<close> is the body of the \<open>for\<close> loop over the offsets,
  with the list \<open>chunks\<close> built so far.
\<close>

fun chunk_loop :: "pystr list \<Rightarrow> int \<Rightarrow> int list \<Rightarrow> pystr list \<Rightarrow> pystr list" where
  "chunk_loop words chunk_size [] chunks = chunks"
| "chunk_loop words chunk_size (i # offs) chunks =
     (let chunk = join (str '' '') (slice words i (i + chunk_size))
      in chunk_loop words chunk_size offs
           (if length (strip chunk) > 50 then chunks @ [chunk] else chunks))"

definition chunk_text :: "pystr \<Rightarrow> int \<Rightarrow> int \<Rightarrow> error + pystr list" where
  "chunk_text text chunk_size overlap =
     (let words = split text
      in case range3 0 (int (length words)) (chunk_size - overlap) of
           Inl e \<Rightarrow> Inl e
         | Inr offs \<Rightarrow> Inr (chunk_loop words chunk_size offs []))"

section \<open>Values, the object store and the persisted files\<close>

text \<open>
  The chunk records and the manifest are Python dicts with string keys. A dict is an
  association list in insertion order; \<open>setitem d k v\<close> is \<open>d[k] = v\<close>.
\<close>

datatype pyval = PyStr pystr | PyInt int | PyFloat real | PyList "pystr list"

type_synonym pydict = "(string \<times> pyval) list"

fun setitem :: "pydict \<Rightarrow> string \<Rightarrow> pyval \<Rightarrow> pydict" where
  "setitem [] k v = [(k, v)]"
| "setitem ((k', v') # d) k v = (if k' = k then (k, v) # d else (k', v') # setitem d k v)"

text \<open>
  An embedding and a stored vector are lists of reals: the rounding of the 32-bit floats is
  not modelled. The sentence encoder \<open>self.model.encode\<close> is a parameter \<open>model\<close> of the
  operations that call it, a function from the text to its vector.
\<close>

type_synonym vec = "real list"

text \<open>
  A file of the index directory is missing, present but not parseable, or holds a value.
\<close>

datatype 'a artifact = Missing | Unreadable | Holds 'a

text \<open>
  A PDF of the library folder: its file name and what \<open>PdfReader\<close> extracts from it, the
  texts of its pages in order, or \<open>None\<close> when reading the file or a page raises.
\<close>

record pdf_file =
  pdf_name :: pystr
  pdf_pages :: "pystr list option"

text \<open>
  The state that the methods of \<open>RAGSystem\<close> read and write: the attributes \<open>index\<close>,
  \<open>chunks\<close> and \<open>metadata\<close> of the object, the dict objects of the process, the three files
  of \<open>db_folder\<close> and the PDFs that \<open>pdf_folder.glob("*.pdf")\<close> lists.

  \<open>self.chunks\<close> is a list of references to dict objects: \<open>chunks\<close> holds addresses into
  \<open>store\<close>, the list of all dict objects allocated so far (a new object is appended, and
  its address is its position). \<open>index\<close> is \<open>None\<close> or the flat index, the list of the
  vectors added to it, in order.
\<close>

record RAGSystem =
  index :: "vec list option"
  chunks :: "nat list"
  metadata :: pydict
  store :: "pydict list"
  index_path :: "vec list artifact"
  chunks_path :: "pydict list artifact"
  metadata_path :: "pydict artifact"
  pdf_folder :: "pdf_file list"

section \<open>Text extraction\<close>

record page =
  page_text :: pystr
  page_num :: int
  filename :: pystr

text \<open>
  \<open>RAGSystem.extract_text_from_pdf\<close>: the pages whose text is not blank, numbered from 1;
  any exception gives the empty list.
\<close>

definition extract_text_from_pdf :: "pdf_file \<Rightarrow> page list" where
  "extract_text_from_pdf pdf_path =
     (case pdf_pages pdf_path of
        None \<Rightarrow> []
      | Some texts \<Rightarrow>
          map (\<lambda>(i, t). \<lparr>page_text = t, page_num = int i + 1, filename = pdf_name pdf_path\<rparr>)
            (filter (\<lambda>(i, t). strip t \<noteq> []) (enumerate 0 texts)))"

section \<open>The flat vector index\<close>

text \<open>
  \<open>faiss.IndexFlatL2\<close> is a library class. Its \<open>search\<close> compares the query with every
  stored vector by squared Euclidean distance and returns, for a query, exactly \<open>k\<close> pairs
  of a label (the position of the vector) and a distance, nearest first; the wrapper
  asserts \<open>k > 0\<close>. Where fewer than \<open>k\<close> vectors are stored, the remaining pairs carry the
  label \<open>-1\<close> and the largest 32-bit float as distance. Vectors at equal distance are
  returned in the order of their positions.
\<close>

definition l2sqr :: "vec \<Rightarrow> vec \<Rightarrow> real" where
  "l2sqr q v = sum_list (map (\<lambda>(a, b). (a - b)\<^sup>2) (zip q v))"

definition FLT_MAX :: real where
  "FLT_MAX = 340282346638528859811704183484516925440"

definition faiss_search :: "vec list \<Rightarrow> vec \<Rightarrow> int \<Rightarrow> error + (int \<times> real) list" where
  "faiss_search vs q k =
     (if k \<le> 0 then Inl AssertionError
      else
        let ranked = sort_key snd (zip (map int [0..<length vs]) (map (l2sqr q) vs));
            found = take (nat k) ranked
        in Inr (found @ replicate (nat k - length found) (-1, FLT_MAX)))"

section \<open>Loading the persisted index\<close>

text \<open>
  \<open>RAGSystem.load_index\<close>. The three assignments happen in the order of the source, inside
  one \<open>try\<close>: an exception leaves the attributes assigned before it as they are, and the
  method returns \<open>False\<close>. \<open>pickle.load\<close> allocates the dicts it reads. The last statement
  of the \<open>try\<close> block reads the keys \<open>num_chunks\<close> and \<open>num_pdfs\<close> of the manifest.
\<close>

definition load_index :: "RAGSystem \<Rightarrow> bool \<times> RAGSystem" where
  "load_index s =
     (case index_path s of
        Missing \<Rightarrow> (False, s)
      | Unreadable \<Rightarrow> (False, s)
      | Holds vs \<Rightarrow>
          let s1 = s\<lparr>index := Some vs\<rparr>
          in case chunks_path s1 of
               Missing \<Rightarrow> (False, s1)
             | Unreadable \<Rightarrow> (False, s1)
             | Holds ds \<Rightarrow>
                 let s2 = s1\<lparr>chunks := [length (store s1)..<length (store s1) + length ds],
                             store := store s1 @ ds\<rparr>
                 in case metadata_path s2 of
                      Missing \<Rightarrow> (False, s2)
                    | Unreadable \<Rightarrow> (False, s2)
                    | Holds m \<Rightarrow>
                        let s3 = s2\<lparr>metadata := m\<rparr>
                        in if map_of m ''num_chunks'' = None \<or> map_of m ''num_pdfs'' = None
                           then (False, s3) else (True, s3))"

section \<open>Search\<close>

text \<open>
  The score of a hit at a given distance, \<open>float(1.0 / (1.0 + distance))\<close>. Distances and
  scores are floats in the source; here a float is the real number it denotes and the
  operations are the exact ones, so the value below is the score before any rounding. What
  depends on the rounding of the floats is outside this model.
\<close>

definition relevance_score :: "real \<Rightarrow> real" where
  "relevance_score distance = 1 / (1 + distance)"

text \<open>
  The loop of \<open>RAGSystem.search\<close> over the pairs of a label and a distance, with the list
  \<open>results\<close> built so far. \<open>.copy()\<close> allocates a new dict with the items of the stored
  one, and the score is written into the new dict.
\<close>

fun search_loop ::
  "(int \<times> real) list \<Rightarrow> RAGSystem \<Rightarrow> nat list \<Rightarrow> (error + nat list) \<times> RAGSystem" where
  "search_loop [] s results = (Inr results, s)"
| "search_loop ((idx, distance) # hits) s results =
     (if idx < int (length (chunks s)) then
        (case getitem (chunks s) idx of
           Inl e \<Rightarrow> (Inl e, s)
         | Inr r \<Rightarrow>
             let chunk_data = length (store s);
                 s1 = s\<lparr>store := store s @ [store s ! r]\<rparr>;
                 s2 = s1\<lparr>store := (store s1)[chunk_data :=
                        setitem (store s1 ! chunk_data) ''relevance_score''
                          (PyFloat (relevance_score distance))]\<rparr>
             in search_loop hits s2 (results @ [chunk_data]))
      else search_loop hits s results)"

text \<open>
  \<open>RAGSystem.search\<close>: the result is the list of the addresses of the result dicts, or the
  exception raised, together with the state after the call.
\<close>

definition search ::
  "(pystr \<Rightarrow> vec) \<Rightarrow> RAGSystem \<Rightarrow> pystr \<Rightarrow> int \<Rightarrow> (error + nat list) \<times> RAGSystem" where
  "search model s query top_k =
     (let (loaded, s1) = (if index s = None then load_index s else (True, s))
      in if \<not> loaded then (Inr [], s1)
         else case index s1 of
                None \<Rightarrow> (Inl AttributeError, s1)
              | Some vs \<Rightarrow>
                  (case faiss_search vs (model query) top_k of
                     Inl e \<Rightarrow> (Inl e, s1)
                   | Inr hits \<Rightarrow> search_loop hits s1 []))"

section \<open>Indexing\<close>

text \<open>
  \<open>RAGSystem.index_pdfs\<close> returns one of two dicts: \<open>{'success': False, 'message': m}\<close>,
  here \<open>Failure m\<close>, or \<open>{'success': True, 'metadata': d}\<close>, here \<open>Success d\<close>.
\<close>

datatype index_result = Failure pystr | Success pydict

text \<open>
  The three nested loops of \<open>index_pdfs\<close>, innermost first. Each works on the lists
  \<open>all_chunks\<close> (addresses of the chunk dicts) and \<open>all_embeddings\<close> and on the state, where
  the new dicts are allocated. Only \<open>chunk_text\<close> can raise, and its exception leaves the
  loops at once.
\<close>

fun index_chunks ::
  "(pystr \<Rightarrow> vec) \<Rightarrow> page \<Rightarrow> (nat \<times> pystr) list \<Rightarrow> nat list \<times> vec list \<times> RAGSystem \<Rightarrow>
     nat list \<times> vec list \<times> RAGSystem" where
  "index_chunks model page_data [] acc = acc"
| "index_chunks model page_data ((chunk_idx, chunk) # rest) (all_chunks, all_embeddings, s) =
     (let chunk_data = [(''text'', PyStr chunk), (''filename'', PyStr (filename page_data)),
                        (''page_num'', PyInt (page_num page_data)), (''chunk_idx'', PyInt (int chunk_idx))];
          s1 = s\<lparr>store := store s @ [chunk_data]\<rparr>;
          embedding = model chunk
      in index_chunks model page_data rest
           (all_chunks @ [length (store s)], all_embeddings @ [embedding], s1))"

fun index_pages ::
  "(pystr \<Rightarrow> vec) \<Rightarrow> int \<Rightarrow> page list \<Rightarrow> nat list \<times> vec list \<times> RAGSystem \<Rightarrow>
     error + nat list \<times> vec list \<times> RAGSystem" where
  "index_pages model chunk_size [] acc = Inr acc"
| "index_pages model chunk_size (page_data # rest) acc =
     (case chunk_text (page_text page_data) chunk_size 50 of
        Inl e \<Rightarrow> Inl e
      | Inr cs \<Rightarrow>
          index_pages model chunk_size rest (index_chunks model page_data (enumerate 0 cs) acc))"

fun index_files ::
  "(pystr \<Rightarrow> vec) \<Rightarrow> int \<Rightarrow> pdf_file list \<Rightarrow> nat list \<times> vec list \<times> RAGSystem \<Rightarrow>
     error + nat list \<times> vec list \<times> RAGSystem" where
  "index_files model chunk_size [] acc = Inr acc"
| "index_files model chunk_size (pdf_path # rest) acc =
     (let pages = extract_text_from_pdf pdf_path
      in if pages = [] then index_files model chunk_size rest acc
         else case index_pages model chunk_size pages acc of
                Inl e \<Rightarrow> Inl e
              | Inr acc' \<Rightarrow> index_files model chunk_size rest acc')"

text \<open>
  \<open>RAGSystem.index_pdfs\<close>. The writes of the three files are taken to succeed. An exception
  of the chunker leaves the attributes and the files as they were; the dicts allocated
  before it are unreachable, and the state returned is the one before the call.
\<close>

definition index_pdfs ::
  "(pystr \<Rightarrow> vec) \<Rightarrow> RAGSystem \<Rightarrow> int \<Rightarrow> (error + index_result) \<times> RAGSystem" where
  "index_pdfs model s chunk_size =
     (let pdf_files = pdf_folder s
      in if pdf_files = [] then (Inr (Failure (str ''No PDFs found'')), s)
         else case index_files model chunk_size pdf_files ([], [], s) of
                Inl e \<Rightarrow> (Inl e, s)
              | Inr (all_chunks, all_embeddings, s1) \<Rightarrow>
                  if all_chunks = [] then (Inr (Failure (str ''No text extracted'')), s1)
                  else
                    let s2 = s1\<lparr>index := Some all_embeddings\<rparr>;
                        s3 = s2\<lparr>chunks := all_chunks\<rparr>;
                        s4 = s3\<lparr>index_path := Holds (the (index s3))\<rparr>;
                        s5 = s4\<lparr>chunks_path := Holds (map (\<lambda>r. store s4 ! r) (chunks s4))\<rparr>;
                        metadata = [(''num_pdfs'', PyInt (int (length pdf_files))),
                                    (''num_chunks'', PyInt (int (length all_chunks))),
                                    (''pdf_files'', PyList (map pdf_name pdf_files)),
                                    (''chunk_size'', PyInt chunk_size),
                                    (''embedding_model'', PyStr (str ''all-MiniLM-L6-v2''))];
                        s6 = s5\<lparr>metadata_path := Holds metadata\<rparr>;
                        s7 = s6\<lparr>metadata := metadata\<rparr>
                    in (Inr (Success metadata), s7))"

section \<open>The chunker, as the specification words it\<close>

text \<open>
  The word offsets \<open>0, W - V, 2 (W - V), ...\<close> below \<open>N\<close>, for the chunk size \<open>W\<close> and
  the overlap \<open>V\<close>, and the chunks of a text: the
  windows of \<open>W\<close> words at these offsets, joined by single spaces, those kept whose
  stripped length exceeds 50.
\<close>

definition window_offsets :: "nat \<Rightarrow> nat \<Rightarrow> nat \<Rightarrow> nat list" where
  "window_offsets N W V = takeWhile (\<lambda>off. off < N) (map (\<lambda>k. k * (W - V)) [0..<N])"

definition window_chunks :: "pystr \<Rightarrow> nat \<Rightarrow> nat \<Rightarrow> pystr list" where
  "window_chunks text W V =
     (let words = split text
      in filter (\<lambda>chunk. 50 < length (strip chunk))
           (map (\<lambda>off. join (str '' '') (take W (drop off words)))
              (window_offsets (length words) W V)))"

section \<open>Example inputs\<close>

text \<open>A page of 1200 one-letter words, and a text of two words of 60 letters each.\<close>

definition page_1200 :: pystr where
  "page_1200 = concat (replicate 1200 [97, 32])"

definition two_long_words :: pystr where
  "two_long_words = replicate 60 97 @ [32] @ replicate 60 98"

text \<open>
  An encoder for the examples (the vector of a text is its length), and a service that has
  just been constructed over an empty index directory and an empty library.
\<close>

definition length_model :: "pystr \<Rightarrow> vec" where
  "length_model t = [real (length t)]"

definition fresh :: RAGSystem where
  "fresh = \<lparr>index = None, chunks = [], metadata = [], store = [],
             index_path = Missing, chunks_path = Missing, metadata_path = Missing,
             pdf_folder = []\<rparr>"

section \<open>The chunks of a corpus\<close>

text \<open>
  What a whole run over a folder produces, stated without the loops: the chunks of a page
  (none where the chunker raises), the dict that is stored for a chunk, and both for all
  pages of all files, in order.
\<close>

definition page_chunks :: "int \<Rightarrow> page \<Rightarrow> pystr list" where
  "page_chunks chunk_size p =
     (case chunk_text (page_text p) chunk_size 50 of Inl e \<Rightarrow> [] | Inr cs \<Rightarrow> cs)"

definition chunk_record :: "page \<Rightarrow> nat \<times> pystr \<Rightarrow> pydict" where
  "chunk_record p ic =
     [(''text'', PyStr (snd ic)), (''filename'', PyStr (filename p)),
      (''page_num'', PyInt (page_num p)), (''chunk_idx'', PyInt (int (fst ic)))]"

definition page_records :: "int \<Rightarrow> page \<Rightarrow> pydict list" where
  "page_records chunk_size p = map (chunk_record p) (enumerate 0 (page_chunks chunk_size p))"

definition corpus_pages :: "pdf_file list \<Rightarrow> page list" where
  "corpus_pages files = concat (map extract_text_from_pdf files)"

definition corpus_chunks :: "int \<Rightarrow> pdf_file list \<Rightarrow> pystr list" where
  "corpus_chunks chunk_size files = concat (map (page_chunks chunk_size) (corpus_pages files))"

definition corpus_records :: "int \<Rightarrow> pdf_file list \<Rightarrow> pydict list" where
  "corpus_records chunk_size files = concat (map (page_records chunk_size) (corpus_pages files))"

text \<open>
  The lists and the state of the indexing loops after the dicts \<open>ds\<close> have been allocated
  and the vectors \<open>vs\<close> appended.
\<close>

definition grow ::
  "nat list \<times> vec list \<times> RAGSystem \<Rightarrow> pydict list \<Rightarrow> vec list \<Rightarrow> nat list \<times> vec list \<times> RAGSystem" where
  "grow acc ds vs =
     (case acc of (all_chunks, all_embeddings, s) \<Rightarrow>
        (all_chunks @ [length (store s)..<length (store s) + length ds],
         all_embeddings @ vs,
         s\<lparr>store := store s @ ds\<rparr>))"

text \<open>The manifest of a run over a folder.\<close>

definition manifest :: "int \<Rightarrow> pdf_file list \<Rightarrow> pydict" where
  "manifest chunk_size files =
     [(''num_pdfs'', PyInt (int (length files))),
      (''num_chunks'', PyInt (int (length (corpus_chunks chunk_size files)))),
      (''pdf_files'', PyList (map pdf_name files)),
      (''chunk_size'', PyInt chunk_size),
      (''embedding_model'', PyStr (str ''all-MiniLM-L6-v2''))]"

text \<open>A library of one PDF with one page, the text of two long words.\<close>

definition one_pdf :: RAGSystem where
  "one_pdf = fresh\<lparr>pdf_folder := [\<lparr>pdf_name = str ''a.pdf'', pdf_pages = Some [two_long_words]\<rparr>]\<rparr>"

text \<open>
  The service after indexing that library with the chunk size 100: one chunk and one
  vector. Then two fresh processes over index directories: the one this run wrote, and
  the same with the chunk file deleted.
\<close>

definition two_words_record :: pydict where
  "two_words_record =
     [(''text'', PyStr two_long_words), (''filename'', PyStr (str ''a.pdf'')),
      (''page_num'', PyInt 1), (''chunk_idx'', PyInt 0)]"

definition indexed_one_pdf :: RAGSystem where
  "indexed_one_pdf =
     one_pdf\<lparr>index := Some [[121]], chunks := [0],
       metadata := manifest 100 (pdf_folder one_pdf), store := [two_words_record],
       index_path := Holds [[121]], chunks_path := Holds [two_words_record],
       metadata_path := Holds (manifest 100 (pdf_folder one_pdf))\<rparr>"

definition restarted :: RAGSystem where
  "restarted =
     one_pdf\<lparr>index_path := Holds [[121]], chunks_path := Holds [two_words_record],
       metadata_path := Holds (manifest 100 (pdf_folder one_pdf))\<rparr>"

definition chunks_deleted :: RAGSystem where
  "chunks_deleted = restarted\<lparr>chunks_path := Missing\<rparr>"

text \<open>A sequence of calls of \<open>search\<close>, each with its query and its \<open>top_k\<close>.\<close>

fun searches :: "(pystr \<Rightarrow> vec) \<Rightarrow> RAGSystem \<Rightarrow> (pystr \<times> int) list \<Rightarrow> RAGSystem" where
  "searches model s [] = s"
| "searches model s ((query, top_k) # calls) =
     searches model (snd (search model s query top_k)) calls"

section \<open>Words, joins and slices\<close>

text \<open>
  The equations of the two range functions unfold without end on symbolic arguments, so
  they are used by hand.
\<close>

declare range_up.simps [simp del] range_down.simps [simp del]

lemma split_aux_words:
  "\<forall>c \<in> set w. \<not> isspace c \<Longrightarrow>
   \<forall>v \<in> set (split_aux w cs). v \<noteq> [] \<and> (\<forall>c \<in> set v. \<not> isspace c)"
proof (induction cs arbitrary: w)
  case Nil
  then show ?case by simp
next
  case (Cons a cs)
  show ?case
  proof (cases "isspace a")
    case True
    with Cons.IH [of "[]"] Cons.prems show ?thesis by simp
  next
    case False
    with Cons.IH [of "w @ [a]"] Cons.prems show ?thesis by simp
  qed
qed

lemma split_words: "\<forall>v \<in> set (split s). v \<noteq> [] \<and> (\<forall>c \<in> set v. \<not> isspace c)"
  using split_aux_words [of "[]" s] by (simp add: split_def)

lemma filter_dropWhile_not: "filter (\<lambda>c. \<not> Q c) (dropWhile Q xs) = filter (\<lambda>c. \<not> Q c) xs"
  by (induction xs) auto

lemma filter_strip: "filter (\<lambda>c. \<not> isspace c) (strip s) = filter (\<lambda>c. \<not> isspace c) s"
  by (simp add: strip_def rev_filter [symmetric] filter_dropWhile_not)

lemma length_strip_ge: "length (filter (\<lambda>c. \<not> isspace c) s) \<le> length (strip s)"
  using length_filter_le [of "\<lambda>c. \<not> isspace c" "strip s"] by (simp add: filter_strip)

lemma isspace_space: "str '' '' = [32]" "isspace 32"
  by (simp_all add: str_def isspace_def)

lemma filter_join:
  "\<forall>w \<in> set ws. \<forall>c \<in> set w. \<not> isspace c \<Longrightarrow>
   filter (\<lambda>c. \<not> isspace c) (join [32] ws) = concat ws"
  by (induction "[32::nat]" ws rule: join.induct) (auto simp: isspace_space)

lemma length_concat_ge: "\<forall>w \<in> set ws. w \<noteq> [] \<Longrightarrow> length ws \<le> length (concat ws)"
proof (induction ws)
  case Nil
  then show ?case by simp
next
  case (Cons w ws)
  then have "1 \<le> length w" by (cases w) auto
  with Cons show ?case by simp
qed

lemma length_strip_join:
  assumes "\<forall>w \<in> set ws. w \<noteq> [] \<and> (\<forall>c \<in> set w. \<not> isspace c)"
  shows "length ws \<le> length (strip (join (str '' '') ws))"
proof -
  have "length ws \<le> length (concat ws)"
    using assms by (simp add: length_concat_ge)
  also have "concat ws = filter (\<lambda>c. \<not> isspace c) (join [32] ws)"
    using assms by (simp add: filter_join)
  also have "length \<dots> \<le> length (strip (join [32] ws))"
    by (rule length_strip_ge)
  finally show ?thesis by (simp add: isspace_space)
qed

lemma slice_window:
  "0 \<le> i \<Longrightarrow> 0 \<le> w \<Longrightarrow> slice xs i (i + w) = take (nat w) (drop (nat i) xs)"
  by (auto simp: slice_def slice_bound_def Let_def min_def nat_add_distrib)

section \<open>The chunker\<close>

lemma range_up_step:
  "0 < step \<Longrightarrow> i < stop \<Longrightarrow> range_up i stop step = i # range_up (i + step) stop step"
  by (subst range_up.simps) simp

lemma range_up_stop: "\<not> i < stop \<Longrightarrow> range_up i stop step = []"
  by (subst range_up.simps) simp

lemma range_down_stop: "\<not> stop < i \<Longrightarrow> range_down i stop step = []"
  by (subst range_down.simps) simp

lemma range_up_offsets:
  "0 < s \<Longrightarrow> N \<le> M \<Longrightarrow>
   range_up (int (j * s)) (int N) (int s) =
     map int (takeWhile (\<lambda>off. off < N) (map (\<lambda>k. k * s) [j..<M]))"
proof (induction "M - j" arbitrary: j)
  case 0
  then have "M \<le> j" by simp
  moreover have "j \<le> j * s" using \<open>0 < s\<close> by (cases s) simp_all
  ultimately have "N \<le> j * s" using \<open>N \<le> M\<close> by (meson le_trans)
  then have "\<not> int (j * s) < int N"
    by (simp only: of_nat_less_iff not_less)
  then have "range_up (int (j * s)) (int N) (int s) = []"
    by (rule range_up_stop)
  with \<open>M \<le> j\<close> show ?case by simp
next
  case (Suc n)
  then have up: "[j..<M] = j # [Suc j..<M]"
    by (simp add: upt_conv_Cons)
  show ?case
  proof (cases "j * s < N")
    case True
    have ih: "range_up (int (Suc j * s)) (int N) (int s) =
          map int (takeWhile (\<lambda>off. off < N) (map (\<lambda>k. k * s) [Suc j..<M]))"
      using Suc by (intro Suc.hyps(1)) simp_all
    have e: "int (j * s) + int s = int (Suc j * s)"
      by simp
    have "range_up (int (j * s)) (int N) (int s) =
          int (j * s) # range_up (int (j * s) + int s) (int N) (int s)"
      using True \<open>0 < s\<close> by (intro range_up_step) (simp_all only: of_nat_less_iff of_nat_0_less_iff)
    also have "\<dots> = int (j * s) # map int (takeWhile (\<lambda>off. off < N) (map (\<lambda>k. k * s) [Suc j..<M]))"
      unfolding e ih ..
    also have "\<dots> = map int (takeWhile (\<lambda>off. off < N) (map (\<lambda>k. k * s) [j..<M]))"
      unfolding up using True by simp
    finally show ?thesis .
  next
    case False
    then have "\<not> int (j * s) < int N"
      by (simp only: of_nat_less_iff not_False_eq_True)
    then have "range_up (int (j * s)) (int N) (int s) = []"
      by (rule range_up_stop)
    with False show ?thesis unfolding up by simp
  qed
qed

lemma range_up_window_offsets:
  assumes "V < W"
  shows "range_up 0 (int N) (int W - int V) = map int (window_offsets N W V)"
proof -
  have "range_up (int (0 * (W - V))) (int N) (int (W - V)) =
        map int (takeWhile (\<lambda>off. off < N) (map (\<lambda>k. k * (W - V)) [0..<N]))"
    using assms by (intro range_up_offsets) simp_all
  moreover have "int (W - V) = int W - int V"
    using assms by (simp add: of_nat_diff)
  ultimately show ?thesis
    by (simp add: window_offsets_def)
qed

lemma chunk_loop_filter:
  "\<forall>i \<in> set offs. 0 \<le> i \<Longrightarrow> 0 \<le> w \<Longrightarrow>
   chunk_loop words w offs acc =
     acc @ filter (\<lambda>chunk. 50 < length (strip chunk))
             (map (\<lambda>i. join (str '' '') (take (nat w) (drop (nat i) words))) offs)"
  by (induction offs arbitrary: acc) (simp_all add: slice_window Let_def)

lemma chunk_text_windows:
  assumes "V < W"
  shows "chunk_text s (int W) (int V) = Inr (window_chunks s W V)"
proof -
  have r: "range3 0 (int (length (split s))) (int W - int V) =
        Inr (map int (window_offsets (length (split s)) W V))"
    using assms by (simp add: range3_def range_up_window_offsets)
  have "chunk_loop (split s) (int W) (map int (window_offsets (length (split s)) W V)) [] =
        [] @ filter (\<lambda>chunk. 50 < length (strip chunk))
               (map (\<lambda>i. join (str '' '') (take (nat (int W)) (drop (nat i) (split s))))
                  (map int (window_offsets (length (split s)) W V)))"
    by (rule chunk_loop_filter) simp_all
  then show ?thesis
    by (simp add: chunk_text_def r window_chunks_def o_def Let_def)
qed

lemma range_up_1200: "range_up 0 1200 450 = [0, 450, 900]"
  using range_up_step [of 450 0 1200] range_up_step [of 450 450 1200]
    range_up_step [of 450 900 1200] range_up_stop [of 1350 1200 450]
  by simp

lemma kept_window:
  assumes "set ws \<subseteq> set (split s)" and "50 < length ws"
  shows "50 < length (strip (join (str '' '') ws))"
proof -
  have "\<forall>v \<in> set ws. v \<noteq> [] \<and> (\<forall>c \<in> set v. \<not> isspace c)"
    using split_words [of s] assms(1) by blast
  from length_strip_join [OF this] assms(2) show ?thesis by simp
qed

lemma chunk_text_1200:
  assumes "length (split s) = 1200"
  shows "chunk_text s 500 50 =
           Inr [join (str '' '') (take 500 (split s)),
                join (str '' '') (take 500 (drop 450 (split s))),
                join (str '' '') (drop 900 (split s))]"
proof -
  have k1: "50 < length (strip (join (str '' '') (take 500 (split s))))"
    using assms by (intro kept_window [of _ s]) (simp_all add: set_take_subset)
  have k2: "50 < length (strip (join (str '' '') (take 500 (drop 450 (split s)))))"
    using assms set_take_subset [of 500 "drop 450 (split s)"] set_drop_subset [of 450 "split s"]
    by (intro kept_window [of _ s]) (blast, simp)
  have k3: "50 < length (strip (join (str '' '') (drop 900 (split s))))"
    using assms by (intro kept_window [of _ s]) (simp_all add: set_drop_subset)
  note k = k1 k2 k3
  have "chunk_text s 500 50 = Inr (chunk_loop (split s) 500 [0, 450, 900] [])"
    using assms by (simp add: chunk_text_def range3_def range_up_1200 Let_def)
  also have "chunk_loop (split s) 500 [0, 450, 900] [] =
      [] @ filter (\<lambda>chunk. 50 < length (strip chunk))
             (map (\<lambda>i. join (str '' '') (take (nat 500) (drop (nat i) (split s)))) [0, 450, 900])"
    by (rule chunk_loop_filter) simp_all
  also have "\<dots> =
      [join (str '' '') (take 500 (split s)),
       join (str '' '') (take 500 (drop 450 (split s))),
       join (str '' '') (drop 900 (split s))]"
    using k assms by simp
  finally show ?thesis .
qed

lemma split_aux_replicate:
  "split_aux [] (concat (replicate n [97, 32])) = replicate n [97]"
  by (induction n) (simp_all add: isspace_def)

lemma split_replicate: "split (concat (replicate n [97, 32])) = replicate n [97]"
  by (simp add: split_def split_aux_replicate)

lemma split_aux_nonspace:
  "\<forall>c \<in> set u. \<not> isspace c \<Longrightarrow> split_aux w (u @ rest) = split_aux (w @ u) rest"
  by (induction u arbitrary: w) simp_all

lemma strip_id:
  assumes "s \<noteq> []" "\<not> isspace (hd s)" "\<not> isspace (last s)"
  shows "strip s = s"
proof -
  have "dropWhile isspace s = s"
    using assms by (simp add: dropWhile_eq_self_iff)
  moreover have "dropWhile isspace (rev s) = rev s"
    using assms by (simp add: dropWhile_eq_self_iff hd_rev)
  ultimately show ?thesis by (simp add: strip_def)
qed

lemma split_two_long_words: "split two_long_words = [replicate 60 97, replicate 60 98]"
proof -
  have a: "\<forall>c \<in> set (replicate 60 (97::nat)). \<not> isspace c"
    and b: "\<forall>c \<in> set (replicate 60 (98::nat)). \<not> isspace c"
    by (simp_all add: isspace_def)
  have "split two_long_words = split_aux (replicate 60 97) (32 # (replicate 60 98 @ []))"
    using split_aux_nonspace [OF a, of "[]" "32 # (replicate 60 98 @ [])"]
    by (simp add: split_def two_long_words_def)
  also have "\<dots> = replicate 60 97 # split_aux [] (replicate 60 98 @ [])"
    by (simp add: isspace_space)
  also have "split_aux [] (replicate 60 98 @ []) = [replicate 60 98]"
    unfolding split_aux_nonspace [OF b] by simp
  finally show ?thesis .
qed

lemma range_up_2: "range_up 0 2 1 = [0, 1]"
  using range_up_step [of 1 0 2] range_up_step [of 1 1 2] range_up_stop [of 2 2 1]
  by simp

lemma chunk_text_two_long_words:
  "chunk_text two_long_words 3 2 = Inr [two_long_words, replicate 60 98]"
proof -
  let ?a = "replicate 60 (97::nat)" and ?b = "replicate 60 (98::nat)"
  have s1: "strip two_long_words = two_long_words"
    by (rule strip_id) (simp_all add: two_long_words_def isspace_def hd_append last_append)
  have s2: "strip ?b = ?b"
    by (rule strip_id) (simp_all add: isspace_def hd_replicate last_replicate)
  have j: "join (str '' '') [?a, ?b] = two_long_words" "join (str '' '') [?b] = ?b"
    by (simp_all add: two_long_words_def isspace_space)
  have c: "slice [?a, ?b] 0 (0 + 3) = [?a, ?b]" "slice [?a, ?b] 1 (1 + 3) = [?b]"
    by (simp_all add: slice_def slice_bound_def)
  have l: "50 < length two_long_words" "50 < length ?b"
    by (simp_all add: two_long_words_def)
  have "chunk_loop [?a, ?b] 3 [0, 1] [] = [two_long_words, ?b]"
    unfolding chunk_loop.simps Let_def c j s1 s2 using l by simp
  then show ?thesis
    by (simp add: chunk_text_def split_two_long_words range3_def range_up_2 Let_def
        del: chunk_loop.simps)
qed

text \<open>
  C3. For a text of \<open>N\<close> words, a chunk size \<open>W\<close> and an overlap \<open>V < W\<close>, \<open>chunk_text\<close>
  returns exactly the joined windows of \<open>W\<close> words at the offsets \<open>0, W - V, 2 (W - V), ...\<close>
  below \<open>N\<close> whose stripped length exceeds 50. A text of 1200 words, chunked with size 500
  and overlap 50, gives three chunks, at the offsets 0, 450 and 900, and the last has 300
  words.
\<close>

theorem chunk_text_is_window_chunks:
  "(V < W \<longrightarrow> chunk_text s (int W) (int V) = Inr (window_chunks s W V)) \<and>
   (length (split t) = 1200 \<longrightarrow>
      chunk_text t 500 50 =
        Inr [join (str '' '') (take 500 (drop 0 (split t))),
             join (str '' '') (take 500 (drop 450 (split t))),
             join (str '' '') (take 500 (drop 900 (split t)))] \<and>
      length (take 500 (drop 900 (split t))) = 300)"
  by (simp add: chunk_text_windows chunk_text_1200)

theorem chunk_text_is_window_chunks_witness:
  "(2::nat) < 3 \<and>
   chunk_text two_long_words (int 3) (int 2) = Inr (window_chunks two_long_words 3 2) \<and>
   length (split page_1200) = 1200 \<and>
   chunk_text page_1200 500 50 =
     Inr [join (str '' '') (replicate 500 [97]), join (str '' '') (replicate 500 [97]),
          join (str '' '') (replicate 300 [97])]"
  using chunk_text_is_window_chunks [of 2 3 two_long_words page_1200]
  by (simp add: page_1200_def split_replicate)

text \<open>
  C6, as stated, fails: a text of two words is shorter than the chunk size 3, and with
  the overlap 2 the chunker returns two chunks.
\<close>

theorem chunk_text_short_counterexample:
  "length (split two_long_words) < 3 \<and> (2::int) < 3 \<and>
   chunk_text two_long_words 3 2 = Inr [two_long_words, replicate 60 98] \<and>
   length [two_long_words, replicate 60 98] = 2"
  by (simp add: split_two_long_words chunk_text_two_long_words)

lemma split_one_long_word: "split (replicate 60 98) = [replicate 60 98]"
proof -
  have "\<forall>c \<in> set (replicate 60 (98::nat)). \<not> isspace c"
    by (simp add: isspace_def)
  from split_aux_nonspace [OF this, of "[]" "[]"] show ?thesis
    by (simp add: split_def)
qed

text \<open>
  C6, amended. For a chunk size, an overlap below it and a text of at most
  \<open>chunk_size - overlap\<close> words, \<open>chunk_text\<close> returns at most one chunk: the window at
  offset 0 if its stripped length exceeds 50, and no chunk otherwise.
\<close>

theorem chunk_text_one_step:
  assumes "overlap < chunk_size" and "int (length (split s)) \<le> chunk_size - overlap"
  shows "chunk_text s chunk_size overlap =
           Inr (if 50 < length (strip (join (str '' '') (slice (split s) 0 chunk_size)))
                then [join (str '' '') (slice (split s) 0 chunk_size)] else []) \<and>
         (\<exists>cs. chunk_text s chunk_size overlap = Inr cs \<and> length cs \<le> 1)"
proof (cases "split s = []")
  case True
  then have "range_up 0 (int (length (split s))) (chunk_size - overlap) = []"
    by (intro range_up_stop) simp
  moreover have "strip (join (str '' '') (slice (split s) 0 chunk_size)) = []"
    using True by (simp add: slice_def strip_def)
  ultimately show ?thesis
    using assms(1) True by (simp add: chunk_text_def range3_def)
next
  case False
  have "range_up 0 (int (length (split s))) (chunk_size - overlap) =
        0 # range_up (0 + (chunk_size - overlap)) (int (length (split s))) (chunk_size - overlap)"
    using assms(1) False by (intro range_up_step) simp_all
  also have "range_up (0 + (chunk_size - overlap)) (int (length (split s))) (chunk_size - overlap) = []"
    using assms(2) by (intro range_up_stop) simp
  finally show ?thesis
    using assms(1) by (simp add: chunk_text_def range3_def Let_def)
qed

theorem chunk_text_one_step_witness:
  "(1::int) < 3 \<and> int (length (split (str ''ab cd''))) \<le> 3 - 1 \<and>
   chunk_text (str ''ab cd'') 3 1 = Inr [] \<and>
   int (length (split (replicate 60 98))) \<le> 3 - 1 \<and>
   chunk_text (replicate 60 98) 3 1 = Inr [replicate 60 98]"
proof -
  have ab: "split (str ''ab cd'') = [str ''ab'', str ''cd'']"
    by (simp add: split_def str_def isspace_def)
  have "strip (replicate 60 98) = replicate 60 98"
    by (rule strip_id) (simp_all add: isspace_def hd_replicate last_replicate)
  moreover have "length (strip (join (str '' '') [str ''ab'', str ''cd''])) \<le> 5"
    by (simp add: strip_def str_def isspace_def)
  ultimately show ?thesis
    using chunk_text_one_step [of 1 3 "str ''ab cd''"] chunk_text_one_step [of 1 3 "replicate 60 98"]
    by (simp add: ab split_one_long_word slice_def slice_bound_def)
qed

section \<open>Search without an index\<close>

text \<open>
  C7. With no index in memory and no index file on disk, \<open>search\<close> returns the empty list
  for every query and every \<open>top_k\<close>, raises nothing and leaves the state as it is.
\<close>

theorem search_without_index:
  "index s = None \<Longrightarrow> index_path s = Missing \<Longrightarrow> search model s query top_k = (Inr [], s)"
  by (simp add: search_def load_index_def)

theorem search_without_index_witness:
  "index fresh = None \<and> index_path fresh = Missing \<and>
   search length_model fresh (str ''machine learning'') 5 = (Inr [], fresh)"
  using search_without_index [of fresh length_model "str ''machine learning''" 5]
  by (simp add: fresh_def)

section \<open>Indexing a folder\<close>

lemma grow_Nil: "grow acc [] [] = acc"
  by (cases acc) (simp add: grow_def)

lemma upt_split: "[l..<l + (a + b)] = [l..<l + a] @ [l + a..<l + a + b]"
  by (metis upt_add_eq_append le_add1 add.assoc)

lemma grow_grow: "grow (grow acc ds vs) ds' vs' = grow acc (ds @ ds') (vs @ vs')"
proof -
  obtain ac ae s where acc: "acc = (ac, ae, s)"
    by (cases acc)
  show ?thesis
    unfolding acc grow_def by (simp add: upt_split)
qed

lemma index_chunks_grow:
  "index_chunks model p ics acc =
     grow acc (map (chunk_record p) ics) (map (\<lambda>ic. model (snd ic)) ics)"
proof (induction ics arbitrary: acc)
  case Nil
  then show ?case by (simp add: grow_Nil)
next
  case (Cons ic ics)
  obtain i c where ic: "ic = (i, c)" by (cases ic)
  obtain ac ae s where acc: "acc = (ac, ae, s)" by (cases acc)
  have "index_chunks model p (ic # ics) acc =
        index_chunks model p ics (grow acc [chunk_record p ic] [model (snd ic)])"
    unfolding ic acc by (simp add: grow_def chunk_record_def Let_def)
  also have "\<dots> = grow (grow acc [chunk_record p ic] [model (snd ic)])
                     (map (chunk_record p) ics) (map (\<lambda>ic. model (snd ic)) ics)"
    by (rule Cons.IH)
  also have "\<dots> = grow acc (map (chunk_record p) (ic # ics)) (map (\<lambda>ic. model (snd ic)) (ic # ics))"
    by (simp add: grow_grow)
  finally show ?case .
qed

lemma chunk_text_cases:
  "chunk_text s chunk_size overlap =
     (if chunk_size = overlap then Inl ValueError
      else if chunk_size < overlap then Inr []
      else Inr (chunk_loop (split s) chunk_size
                  (range_up 0 (int (length (split s))) (chunk_size - overlap)) []))"
proof -
  have "range_down 0 (int (length (split s))) (chunk_size - overlap) = []"
    by (rule range_down_stop) simp
  then show ?thesis
    by (simp add: chunk_text_def range3_def Let_def)
qed

lemma chunk_text_page_chunks:
  "chunk_size \<noteq> 50 \<Longrightarrow> chunk_text (page_text p) chunk_size 50 = Inr (page_chunks chunk_size p)"
  by (simp add: page_chunks_def chunk_text_cases)

lemma chunk_text_small:
  "chunk_size \<le> 50 \<Longrightarrow>
   chunk_text s chunk_size 50 = (if chunk_size = 50 then Inl ValueError else Inr [])"
  by (simp add: chunk_text_cases)

lemma map_snd_enumerate_fun: "map (\<lambda>ic. f (snd ic)) (enumerate n xs) = map f xs"
  by (induction xs arbitrary: n) simp_all

lemma index_pages_grow:
  assumes "chunk_size \<noteq> 50"
  shows "index_pages model chunk_size pages acc =
     Inr (grow acc (concat (map (page_records chunk_size) pages))
            (map model (concat (map (page_chunks chunk_size) pages))))"
proof (induction pages arbitrary: acc)
  case Nil
  then show ?case by (simp add: grow_Nil)
next
  case (Cons p pages)
  have "map (\<lambda>ic. model (snd ic)) (enumerate 0 (page_chunks chunk_size p)) =
        map model (page_chunks chunk_size p)"
    by (rule map_snd_enumerate_fun)
  then have "index_chunks model p (enumerate 0 (page_chunks chunk_size p)) acc =
        grow acc (page_records chunk_size p) (map model (page_chunks chunk_size p))"
    by (simp add: index_chunks_grow page_records_def)
  then show ?case
    using assms by (simp add: chunk_text_page_chunks Cons.IH grow_grow)
qed

lemma index_files_grow:
  assumes "chunk_size \<noteq> 50"
  shows "index_files model chunk_size files acc =
     Inr (grow acc (corpus_records chunk_size files) (map model (corpus_chunks chunk_size files)))"
proof (induction files arbitrary: acc)
  case Nil
  then show ?case
    by (simp add: grow_Nil corpus_records_def corpus_chunks_def corpus_pages_def)
next
  case (Cons f files)
  have r: "corpus_records chunk_size (f # files) =
        concat (map (page_records chunk_size) (extract_text_from_pdf f)) @
        corpus_records chunk_size files"
    and c: "corpus_chunks chunk_size (f # files) =
        concat (map (page_chunks chunk_size) (extract_text_from_pdf f)) @
        corpus_chunks chunk_size files"
    by (simp_all add: corpus_records_def corpus_chunks_def corpus_pages_def)
  show ?case
  proof (cases "extract_text_from_pdf f = []")
    case True
    then show ?thesis
      by (simp add: r c Cons.IH)
  next
    case False
    then show ?thesis
      using assms by (simp add: r c Cons.IH index_pages_grow grow_grow Let_def)
  qed
qed

lemma index_pages_small:
  assumes "chunk_size \<le> 50"
  shows "index_pages model chunk_size pages acc = Inl ValueError \<or>
         index_pages model chunk_size pages acc = Inr acc"
proof (induction pages arbitrary: acc)
  case Nil
  then show ?case by simp
next
  case (Cons p pages)
  show ?case
  proof (cases "chunk_size = 50")
    case True
    then show ?thesis by (simp add: chunk_text_cases)
  next
    case False
    with assms have "chunk_text (page_text p) chunk_size 50 = Inr []"
      by (simp add: chunk_text_cases)
    with Cons.IH [of acc] show ?thesis by simp
  qed
qed

lemma index_files_small:
  assumes "chunk_size \<le> 50"
  shows "index_files model chunk_size files acc = Inl ValueError \<or>
         index_files model chunk_size files acc = Inr acc"
proof (induction files arbitrary: acc)
  case Nil
  then show ?case by simp
next
  case (Cons f files)
  from index_pages_small [OF assms, of model "extract_text_from_pdf f" acc] Cons.IH [of acc]
  show ?case by (auto simp: Let_def)
qed

lemma length_page_records: "length (page_records chunk_size p) = length (page_chunks chunk_size p)"
  by (simp add: page_records_def)

lemma length_corpus_records:
  "length (corpus_records chunk_size files) = length (corpus_chunks chunk_size files)"
  by (simp add: corpus_records_def corpus_chunks_def length_concat o_def length_page_records)

lemma text_chunk_record: "map_of (chunk_record p ic) ''text'' = Some (PyStr (snd ic))"
  by (simp add: chunk_record_def)

lemma text_page_records:
  "map (\<lambda>d. map_of d ''text'') (page_records chunk_size p) =
   map (\<lambda>c. Some (PyStr c)) (page_chunks chunk_size p)"
  using map_snd_enumerate_fun [of "\<lambda>c. Some (PyStr c)" 0 "page_chunks chunk_size p"]
  by (simp add: page_records_def o_def text_chunk_record)

lemma text_corpus_records:
  "map (\<lambda>d. map_of d ''text'') (corpus_records chunk_size files) =
   map (\<lambda>c. Some (PyStr c)) (corpus_chunks chunk_size files)"
  by (simp add: corpus_records_def corpus_chunks_def map_concat o_def text_page_records)

lemma map_nth_append_upt: "map (\<lambda>r. (xs @ ys) ! r) [length xs..<length xs + length ys] = ys"
  by (rule nth_equalityI) (simp_all add: nth_append)

lemma index_pdfs_small:
  assumes "chunk_size \<le> 50"
  shows "fst (index_pdfs model s chunk_size) = Inl ValueError \<or>
         fst (index_pdfs model s chunk_size) = Inr (Failure (str ''No PDFs found'')) \<or>
         fst (index_pdfs model s chunk_size) = Inr (Failure (str ''No text extracted''))"
  using index_files_small [OF assms, of model "pdf_folder s" "([], [], s)"]
  by (auto simp: index_pdfs_def Let_def)

lemma index_pdfs_result:
  assumes "chunk_size \<noteq> 50"
  shows "index_pdfs model s chunk_size =
     (if pdf_folder s = [] then (Inr (Failure (str ''No PDFs found'')), s)
      else if corpus_chunks chunk_size (pdf_folder s) = []
      then (Inr (Failure (str ''No text extracted'')), s)
      else (Inr (Success (manifest chunk_size (pdf_folder s))),
            s\<lparr>index := Some (map model (corpus_chunks chunk_size (pdf_folder s))),
              chunks := [length (store s)..<
                         length (store s) + length (corpus_chunks chunk_size (pdf_folder s))],
              metadata := manifest chunk_size (pdf_folder s),
              store := store s @ corpus_records chunk_size (pdf_folder s),
              index_path := Holds (map model (corpus_chunks chunk_size (pdf_folder s))),
              chunks_path := Holds (corpus_records chunk_size (pdf_folder s)),
              metadata_path := Holds (manifest chunk_size (pdf_folder s))\<rparr>))"
proof -
  let ?cs = "corpus_chunks chunk_size (pdf_folder s)"
  let ?rs = "corpus_records chunk_size (pdf_folder s)"
  have f: "index_files model chunk_size (pdf_folder s) ([], [], s) =
        Inr ([length (store s)..<length (store s) + length ?cs], map model ?cs,
             s\<lparr>store := store s @ ?rs\<rparr>)"
    using assms by (simp add: index_files_grow grow_def length_corpus_records)
  have e: "?cs = [] \<Longrightarrow> ?rs = []"
    using length_corpus_records [of chunk_size "pdf_folder s"] by simp
  have n: "map (\<lambda>r. (store s @ ?rs) ! r)
        [length (store s)..<length (store s) + length ?cs] = ?rs"
    using map_nth_append_upt [of "store s" ?rs] by (simp add: length_corpus_records)
  show ?thesis
    by (simp add: index_pdfs_def f e n manifest_def Let_def)
qed

lemma strip_two_long_words: "strip two_long_words = two_long_words"
  by (rule strip_id) (simp_all add: two_long_words_def isspace_def hd_append last_append)

lemma chunk_text_two_long_words_100: "chunk_text two_long_words 100 50 = Inr [two_long_words]"
proof -
  let ?a = "replicate 60 (97::nat)" and ?b = "replicate 60 (98::nat)"
  have r: "range_up 0 2 50 = [0]"
    using range_up_step [of 50 0 2] range_up_stop [of 50 2 50] by simp
  have j: "join (str '' '') [?a, ?b] = two_long_words"
    by (simp add: two_long_words_def isspace_space)
  have c: "slice [?a, ?b] 0 (0 + 100) = [?a, ?b]"
    by (simp add: slice_def slice_bound_def)
  have l: "50 < length two_long_words"
    by (simp add: two_long_words_def)
  have "chunk_loop [?a, ?b] 100 [0] [] = [two_long_words]"
    unfolding chunk_loop.simps Let_def c j strip_two_long_words using l by simp
  then show ?thesis
    by (simp add: chunk_text_cases split_two_long_words r del: chunk_loop.simps)
qed

lemma extract_one_pdf:
  "extract_text_from_pdf \<lparr>pdf_name = str ''a.pdf'', pdf_pages = Some [two_long_words]\<rparr> =
     [\<lparr>page_text = two_long_words, page_num = 1, filename = str ''a.pdf''\<rparr>]"
proof -
  have "two_long_words \<noteq> []"
    by (simp add: two_long_words_def)
  then show ?thesis
    by (simp add: extract_text_from_pdf_def enumerate_eq_zip strip_two_long_words)
qed

lemma corpus_chunks_one_pdf: "corpus_chunks 100 (pdf_folder one_pdf) = [two_long_words]"
  by (simp add: corpus_chunks_def corpus_pages_def one_pdf_def extract_one_pdf page_chunks_def
      chunk_text_two_long_words_100)

lemma corpus_chunks_one_pdf_10: "corpus_chunks 10 (pdf_folder one_pdf) = []"
  by (simp add: corpus_chunks_def corpus_pages_def one_pdf_def extract_one_pdf page_chunks_def
      chunk_text_cases)

lemma index_pdfs_one_pdf_50: "fst (index_pdfs model one_pdf 50) = Inl ValueError"
  by (simp add: index_pdfs_def one_pdf_def extract_one_pdf chunk_text_cases)

text \<open>
  C2. After every successful run of \<open>index_pdfs\<close> the list of chunk dicts and the vector
  index have the same length, and the vector at every position is the embedding of the
  text of the chunk at that position.
\<close>

theorem index_pdfs_aligned:
  assumes "fst (index_pdfs model s chunk_size) = Inr (Success m)"
  shows "\<exists>vs. index (snd (index_pdfs model s chunk_size)) = Some vs \<and>
           length vs = length (chunks (snd (index_pdfs model s chunk_size))) \<and>
           (\<forall>i < length vs. \<exists>t.
              map_of (store (snd (index_pdfs model s chunk_size)) !
                        (chunks (snd (index_pdfs model s chunk_size)) ! i)) ''text'' =
                Some (PyStr t) \<and>
              vs ! i = model t)"
proof -
  let ?cs = "corpus_chunks chunk_size (pdf_folder s)"
  let ?rs = "corpus_records chunk_size (pdf_folder s)"
  have ne: "chunk_size \<noteq> 50"
    using assms index_pdfs_small [of chunk_size model s] by auto
  from assms have ok: "pdf_folder s \<noteq> []" "?cs \<noteq> []"
    by (auto simp: index_pdfs_result [OF ne] split: if_splits)
  have t: "map_of (?rs ! i) ''text'' = Some (PyStr (?cs ! i))" if "i < length ?cs" for i
  proof -
    have "map (\<lambda>d. map_of d ''text'') ?rs ! i = map (\<lambda>c. Some (PyStr c)) ?cs ! i"
      by (simp only: text_corpus_records)
    with that show ?thesis
      by (simp add: length_corpus_records)
  qed
  have "map_of ((store s @ ?rs) ! ([length (store s)..<length (store s) + length ?cs] ! i))
          ''text'' = Some (PyStr (?cs ! i)) \<and> map model ?cs ! i = model (?cs ! i)"
    if "i < length ?cs" for i
    using that t [OF that] by (simp add: nth_append)
  then show ?thesis
    using ok by (simp add: index_pdfs_result [OF ne])
qed

theorem index_pdfs_aligned_witness:
  "fst (index_pdfs length_model one_pdf 100) = Inr (Success (manifest 100 (pdf_folder one_pdf))) \<and>
   (\<exists>vs. index (snd (index_pdfs length_model one_pdf 100)) = Some vs \<and>
      length vs = length (chunks (snd (index_pdfs length_model one_pdf 100))) \<and>
      (\<forall>i < length vs. \<exists>t.
         map_of (store (snd (index_pdfs length_model one_pdf 100)) !
                   (chunks (snd (index_pdfs length_model one_pdf 100)) ! i)) ''text'' =
           Some (PyStr t) \<and>
         vs ! i = length_model t))"
proof -
  have "fst (index_pdfs length_model one_pdf 100) =
        Inr (Success (manifest 100 (pdf_folder one_pdf)))"
    by (simp add: index_pdfs_result corpus_chunks_one_pdf) (simp add: one_pdf_def)
  with index_pdfs_aligned [of length_model one_pdf 100 "manifest 100 (pdf_folder one_pdf)"]
  show ?thesis by blast
qed




lemma length_chunk_loop: "length (chunk_loop words w offs acc) \<le> length acc + length offs"
proof (induction offs arbitrary: acc)
  case Nil
  then show ?case by simp
next
  case (Cons i offs)
  have "length (chunk_loop words w (i # offs) acc) \<le> length acc + 1 + length offs"
    using Cons.IH [of "acc @ [join (str '' '') (slice words i (i + w))]"] Cons.IH [of acc]
    by (simp add: Let_def)
  then show ?case by simp
qed

lemma length_range_up:
  "0 < step \<Longrightarrow> length (range_up i stop step) \<le> nat (stop - i)"
proof (induction i stop step rule: range_up.induct)
  case (1 i stop step)
  show ?case
  proof (cases "i < stop")
    case True
    with 1 have "length (range_up (i + step) stop step) \<le> nat (stop - (i + step))"
      by simp
    moreover have "range_up i stop step = i # range_up (i + step) stop step"
      using True 1(2) by (rule range_up_step [rotated])
    ultimately show ?thesis
      using True 1(2) by simp
  next
    case False
    then show ?thesis by (simp add: range_up_stop)
  qed
qed

text \<open>
  C9. With an overlap below the chunk size \<open>chunk_text\<close> returns a list for every text (of
  at most as many chunks as the text has words); with the chunk size equal to the overlap
  it raises \<open>ValueError\<close>; with the chunk size below the overlap it returns the empty list
  for every text. \<open>index_pdfs\<close> calls it with the overlap 50, so with a chunk size of at
  most 50 a run never succeeds: it raises \<open>ValueError\<close> or returns a failure.
\<close>

theorem chunk_text_total:
  "(overlap < chunk_size \<longrightarrow>
      (\<exists>cs. chunk_text s chunk_size overlap = Inr cs \<and> length cs \<le> length (split s))) \<and>
   chunk_text s chunk_size chunk_size = Inl ValueError \<and>
   (chunk_size < overlap \<longrightarrow> chunk_text s chunk_size overlap = Inr []) \<and>
   (chunk_size \<le> 50 \<longrightarrow>
      fst (index_pdfs model st chunk_size) = Inl ValueError \<or>
      fst (index_pdfs model st chunk_size) = Inr (Failure (str ''No PDFs found'')) \<or>
      fst (index_pdfs model st chunk_size) = Inr (Failure (str ''No text extracted'')))"
proof (intro conjI impI)
  assume lt: "overlap < chunk_size"
  have "length (chunk_loop (split s) chunk_size
          (range_up 0 (int (length (split s))) (chunk_size - overlap)) []) \<le>
        length (range_up 0 (int (length (split s))) (chunk_size - overlap))"
    using length_chunk_loop [of "split s" chunk_size _ "[]"] by simp
  also have "\<dots> \<le> nat (int (length (split s)) - 0)"
    using lt by (intro length_range_up) simp
  finally show "\<exists>cs. chunk_text s chunk_size overlap = Inr cs \<and> length cs \<le> length (split s)"
    using lt by (simp add: chunk_text_cases)
next
  show "chunk_text s chunk_size chunk_size = Inl ValueError"
    by (simp add: chunk_text_cases)
next
  assume "chunk_size < overlap"
  then show "chunk_text s chunk_size overlap = Inr []"
    by (simp add: chunk_text_cases)
next
  assume "chunk_size \<le> 50"
  then show "fst (index_pdfs model st chunk_size) = Inl ValueError \<or>
      fst (index_pdfs model st chunk_size) = Inr (Failure (str ''No PDFs found'')) \<or>
      fst (index_pdfs model st chunk_size) = Inr (Failure (str ''No text extracted''))"
    by (rule index_pdfs_small)
qed

theorem chunk_text_total_witness:
  "(2::int) < 3 \<and> chunk_text two_long_words 3 2 = Inr [two_long_words, replicate 60 98] \<and>
   chunk_text two_long_words 3 3 = Inl ValueError \<and>
   (3::int) < 5 \<and> chunk_text two_long_words 3 5 = Inr [] \<and>
   (50::int) \<le> 50 \<and> fst (index_pdfs length_model one_pdf 50) = Inl ValueError \<and>
   (10::int) \<le> 50 \<and>
   fst (index_pdfs length_model one_pdf 10) = Inr (Failure (str ''No text extracted''))"
proof -
  have "fst (index_pdfs length_model one_pdf 10) = Inr (Failure (str ''No text extracted''))"
    by (simp add: index_pdfs_result corpus_chunks_one_pdf_10) (simp add: one_pdf_def)
  then show ?thesis
    using chunk_text_total [of 2 3 two_long_words length_model one_pdf]
      chunk_text_total [of 5 3 two_long_words length_model one_pdf]
      chunk_text_total [of 50 50 two_long_words length_model one_pdf]
    by (simp add: chunk_text_two_long_words index_pdfs_one_pdf_50)
qed

section \<open>Search over a resident index\<close>

lemma corpus_records_one_pdf: "corpus_records 100 (pdf_folder one_pdf) = [two_words_record]"
  by (simp add: corpus_records_def corpus_pages_def one_pdf_def extract_one_pdf page_records_def
      page_chunks_def chunk_text_two_long_words_100 enumerate_eq_zip chunk_record_def
      two_words_record_def)

lemma length_two_long_words: "length two_long_words = 121"
  by (simp add: two_long_words_def)

lemma index_pdfs_one_pdf:
  "index_pdfs length_model one_pdf 100 =
     (Inr (Success (manifest 100 (pdf_folder one_pdf))), indexed_one_pdf)"
proof -
  have "pdf_folder one_pdf \<noteq> []" "store one_pdf = []"
    by (simp_all add: one_pdf_def fresh_def)
  then show ?thesis
    by (simp add: index_pdfs_result corpus_chunks_one_pdf corpus_records_one_pdf
        indexed_one_pdf_def length_model_def length_two_long_words)
qed

lemma faiss_search_one:
  "faiss_search [v] q 2 = Inr [(0, l2sqr q v), (-1, FLT_MAX)]"
  "faiss_search [v] q 1 = Inr [(0, l2sqr q v)]"
  by (simp_all add: faiss_search_def)

lemma setitem_score:
  "setitem two_words_record ''relevance_score'' v = two_words_record @ [(''relevance_score'', v)]"
  by (simp add: two_words_record_def)

lemma search_indexed_one_pdf_2:
  "search length_model indexed_one_pdf q 2 =
     (Inr [1, 2],
      indexed_one_pdf\<lparr>store :=
        [two_words_record,
         two_words_record @
           [(''relevance_score'', PyFloat (relevance_score (l2sqr (length_model q) [121])))],
         two_words_record @ [(''relevance_score'', PyFloat (relevance_score FLT_MAX))]]\<rparr>)"
  by (simp add: search_def indexed_one_pdf_def faiss_search_one getitem_def Let_def
      setitem_score)

text \<open>
  C1 fails on the code. The index built from the one-chunk library holds one vector; a
  search with \<open>top_k = 2\<close> returns two results, and both are copies of the one stored
  chunk: the flat index pads its answer with the label \<open>-1\<close>, which passes the test
  \<open>idx < len(self.chunks)\<close> and, as a list index, reads the last chunk.
\<close>

theorem search_beyond_index_size:
  "index_pdfs length_model one_pdf 100 =
     (Inr (Success (manifest 100 (pdf_folder one_pdf))), indexed_one_pdf) \<and>
   index indexed_one_pdf = Some [[121]] \<and> chunks indexed_one_pdf = [0] \<and>
   fst (search length_model indexed_one_pdf (str ''machine learning'') 2) = Inr [1, 2] \<and>
   map (\<lambda>a. map_of (store (snd (search length_model indexed_one_pdf
                                   (str ''machine learning'') 2)) ! a) ''text'') [1, 2] =
     [Some (PyStr two_long_words), Some (PyStr two_long_words)]"
  by (simp add: index_pdfs_one_pdf search_indexed_one_pdf_2)
    (simp add: indexed_one_pdf_def two_words_record_def)

section \<open>Loading\<close>

lemma manifest_keys:
  "map_of (manifest n fs) ''num_chunks'' \<noteq> None" "map_of (manifest n fs) ''num_pdfs'' \<noteq> None"
  by (simp_all add: manifest_def)

lemma load_index_chunks_deleted:
  "load_index chunks_deleted = (False, chunks_deleted\<lparr>index := Some [[121]]\<rparr>)"
  by (simp add: load_index_def chunks_deleted_def restarted_def)

lemma search_partly_loaded:
  "search length_model (chunks_deleted\<lparr>index := Some [[121]]\<rparr>) q 1 =
     (Inr [], chunks_deleted\<lparr>index := Some [[121]]\<rparr>)"
  by (simp add: search_def faiss_search_one chunks_deleted_def restarted_def one_pdf_def
      fresh_def)

text \<open>
  C5 fails on the code. In a fresh process over an index directory whose chunk file has
  been deleted, \<open>load_index\<close> returns \<open>False\<close> but has already assigned the vector index:
  the state has changed, an index without its chunks is resident, and the next \<open>search\<close>
  runs over it and returns the empty list with no failure.
\<close>

theorem load_index_partial:
  "index chunks_deleted = None \<and> chunks chunks_deleted = [] \<and>
   index_path chunks_deleted = Holds [[121]] \<and> chunks_path chunks_deleted = Missing \<and>
   fst (load_index chunks_deleted) = False \<and>
   snd (load_index chunks_deleted) \<noteq> chunks_deleted \<and>
   index (snd (load_index chunks_deleted)) = Some [[121]] \<and>
   chunks (snd (load_index chunks_deleted)) = [] \<and>
   search length_model (snd (load_index chunks_deleted)) (str ''machine learning'') 1 =
     (Inr [], snd (load_index chunks_deleted))"
proof -
  have "chunks_deleted\<lparr>index := Some [[121]]\<rparr> \<noteq> chunks_deleted"
    by (simp add: chunks_deleted_def restarted_def one_pdf_def fresh_def)
  then show ?thesis
    by (simp add: load_index_chunks_deleted search_partly_loaded)
      (simp add: chunks_deleted_def restarted_def one_pdf_def fresh_def)
qed

lemma search_restarted:
  "search length_model restarted q 1 =
     (Inr [1],
      restarted\<lparr>index := Some [[121]], chunks := [0],
        metadata := manifest 100 (pdf_folder one_pdf),
        store := [two_words_record,
          two_words_record @
            [(''relevance_score'', PyFloat (relevance_score (l2sqr (length_model q) [121])))]]\<rparr>)"
  by (simp add: search_def load_index_def restarted_def one_pdf_def fresh_def manifest_keys
      faiss_search_one getitem_def Let_def setitem_score)

text \<open>
  C10, as stated, fails: in a fresh process over the index directory that a run wrote, the
  first \<open>search\<close> loads the index, so the vector index and the chunk list in memory are not
  what they were before the call.
\<close>

theorem search_frame_counterexample:
  "index restarted = None \<and> chunks restarted = [] \<and>
   fst (search length_model restarted (str ''machine learning'') 1) = Inr [1] \<and>
   index (snd (search length_model restarted (str ''machine learning'') 1)) = Some [[121]] \<and>
   chunks (snd (search length_model restarted (str ''machine learning'') 1)) = [0]"
  by (simp add: search_restarted) (simp add: restarted_def one_pdf_def fresh_def)

section \<open>What a search leaves unchanged\<close>

lemma list_update_append_last: "(xs @ [x])[length xs := y] = xs @ [y]"
  by simp

lemma getitem_in_set: "getitem xs i = Inr r \<Longrightarrow> r \<in> set xs"
  by (auto simp: getitem_def Let_def split: if_splits)

lemma search_loop_frame:
  "search_loop hits s results = (r, s') \<Longrightarrow>
   s' = s\<lparr>store := store s'\<rparr> \<and> take (length (store s)) (store s') = store s \<and>
   length (store s) \<le> length (store s')"
proof (induction hits arbitrary: s results)
  case Nil
  then show ?case by auto
next
  case (Cons hit hits)
  obtain idx distance where hit: "hit = (idx, distance)" by (cases hit)
  show ?case
  proof (cases "idx < int (length (chunks s))")
    case False
    with Cons.prems hit have "search_loop hits s results = (r, s')" by simp
    then show ?thesis by (rule Cons.IH)
  next
    case True
    show ?thesis
    proof (cases "getitem (chunks s) idx")
      case (Inl e)
      with Cons.prems hit True show ?thesis by auto
    next
      case (Inr c)
      let ?y = "setitem (store s ! c) ''relevance_score'' (PyFloat (relevance_score distance))"
      let ?s2 = "s\<lparr>store := store s @ [?y]\<rparr>"
      from Cons.prems hit True Inr
      have "search_loop hits ?s2 (results @ [length (store s)]) = (r, s')"
        by (simp add: Let_def)
      from Cons.IH [OF this]
      have a: "s' = ?s2\<lparr>store := store s'\<rparr>"
        and b: "take (length (store ?s2)) (store s') = store ?s2"
        and c: "length (store ?s2) \<le> length (store s')"
        by blast+
      from a have "s' = s\<lparr>store := store s'\<rparr>" by simp
      moreover from b have "take (length (store s)) (take (Suc (length (store s))) (store s')) =
          take (length (store s)) (store s @ [?y])"
        by simp
      then have "take (length (store s)) (store s') = store s"
        by (simp add: min_def)
      moreover from c have "length (store s) \<le> length (store s')" by simp
      ultimately show ?thesis by blast
    qed
  qed
qed

lemma search_loop_copies:
  assumes "search_loop hits s results = (Inr rs, s')"
    and "\<forall>c \<in> set (chunks s). c < length base"
    and "take (length base) (store s) = base"
  shows "\<forall>a \<in> set rs. a \<in> set results \<or>
           (length (store s) \<le> a \<and> a < length (store s') \<and>
            (\<exists>c \<in> set (chunks s). \<exists>d.
               store s' ! a =
                 setitem (base ! c) ''relevance_score'' (PyFloat (relevance_score d))))"
  using assms
proof (induction hits arbitrary: s results)
  case Nil
  then show ?case by auto
next
  case (Cons hit hits)
  obtain idx distance where hit: "hit = (idx, distance)" by (cases hit)
  show ?case
  proof (cases "idx < int (length (chunks s))")
    case False
    with Cons.prems(1) hit have "search_loop hits s results = (Inr rs, s')" by simp
    from Cons.IH [OF this Cons.prems(2,3)] show ?thesis .
  next
    case True
    show ?thesis
    proof (cases "getitem (chunks s) idx")
      case (Inl e)
      with Cons.prems(1) hit True show ?thesis by simp
    next
      case (Inr c)
      let ?y = "setitem (store s ! c) ''relevance_score'' (PyFloat (relevance_score distance))"
      let ?s2 = "s\<lparr>store := store s @ [?y]\<rparr>"
      let ?a0 = "length (store s)"
      have cs: "c \<in> set (chunks s)"
        using Inr by (rule getitem_in_set)
      then have cb: "c < length base"
        using Cons.prems(2) by blast
      have "length (take (length base) (store s)) = length base"
        using Cons.prems(3) by simp
      then have lb: "length base \<le> length (store s)"
        by simp
      have y: "?y = setitem (base ! c) ''relevance_score'' (PyFloat (relevance_score distance))"
        using cb Cons.prems(3) by (metis nth_take)
      from Cons.prems(1) hit True Inr
      have run: "search_loop hits ?s2 (results @ [?a0]) = (Inr rs, s')"
        by (simp add: Let_def)
      have p2: "\<forall>c \<in> set (chunks ?s2). c < length base"
        using Cons.prems(2) by simp
      have p3: "take (length base) (store ?s2) = base"
        using Cons.prems(3) lb by simp
      from search_loop_frame [OF run]
      have fr: "take (length (store ?s2)) (store s') = store ?s2"
        and le: "length (store ?s2) \<le> length (store s')"
        by blast+
      have at: "store s' ! ?a0 = ?y"
      proof -
        have "store s' ! ?a0 = take (length (store ?s2)) (store s') ! ?a0"
          by simp
        also have "\<dots> = ?y"
          unfolding fr by simp
        finally show ?thesis .
      qed
      have new: "?a0 < length (store s')"
        using le by simp
      show ?thesis
      proof
        fix a assume "a \<in> set rs"
        with Cons.IH [OF run p2 p3]
        consider "a \<in> set results" | "a = ?a0"
          | "length (store ?s2) \<le> a \<and> a < length (store s') \<and>
             (\<exists>c \<in> set (chunks ?s2). \<exists>d. store s' ! a =
                setitem (base ! c) ''relevance_score'' (PyFloat (relevance_score d)))"
          by auto
        then show "a \<in> set results \<or>
           (length (store s) \<le> a \<and> a < length (store s') \<and>
            (\<exists>c \<in> set (chunks s). \<exists>d.
               store s' ! a =
                 setitem (base ! c) ''relevance_score'' (PyFloat (relevance_score d))))"
        proof cases
          case 1
          then show ?thesis by simp
        next
          case 2
          with at y new cs show ?thesis by auto
        next
          case 3
          then show ?thesis by auto
        qed
      qed
    qed
  qed
qed

lemma search_resident:
  assumes "index s = Some vs"
  shows "search model s query top_k =
           (case faiss_search vs (model query) top_k of
              Inl e \<Rightarrow> (Inl e, s)
            | Inr hits \<Rightarrow> search_loop hits s [])"
  using assms by (simp add: search_def)

lemma search_resident_frame:
  assumes "index s \<noteq> None" and "search model s query top_k = (r, s')"
  shows "\<exists>st. s' = s\<lparr>store := st\<rparr> \<and> take (length (store s)) st = store s \<and>
              length (store s) \<le> length st"
proof -
  from assms(1) obtain vs where vs: "index s = Some vs" by auto
  show ?thesis
  proof (cases "faiss_search vs (model query) top_k")
    case (Inl e)
    with assms(2) vs have "s' = s\<lparr>store := store s\<rparr>"
      by (auto simp: search_resident)
    then show ?thesis by (intro exI [of _ "store s"]) simp
  next
    case (Inr hits)
    with assms(2) vs have "search_loop hits s [] = (r, s')"
      by (simp add: search_resident)
    from search_loop_frame [OF this] show ?thesis
      by (intro exI [of _ "store s'"]) blast
  qed
qed

lemma search_resident_copies:
  assumes "index s \<noteq> None" and "search model s query top_k = (Inr rs, s')"
    and "\<forall>c \<in> set (chunks s). c < length (store s)"
  shows "\<forall>a \<in> set rs. length (store s) \<le> a \<and> a < length (store s') \<and>
            (\<exists>c \<in> set (chunks s). \<exists>d.
               store s' ! a =
                 setitem (store s ! c) ''relevance_score'' (PyFloat (relevance_score d)))"
proof -
  from assms(1) obtain vs where vs: "index s = Some vs" by auto
  show ?thesis
  proof (cases "faiss_search vs (model query) top_k")
    case (Inl e)
    with assms(2) vs show ?thesis by (simp add: search_resident)
  next
    case (Inr hits)
    with assms(2) vs have "search_loop hits s [] = (Inr rs, s')"
      by (simp add: search_resident)
    from search_loop_copies [OF this, of "store s"] assms(3) show ?thesis by simp
  qed
qed

lemma searches_frame:
  assumes "index s \<noteq> None"
  shows "\<exists>st. searches model s calls = s\<lparr>store := st\<rparr> \<and>
              take (length (store s)) st = store s \<and> length (store s) \<le> length st"
  using assms
proof (induction calls arbitrary: s)
  case Nil
  show ?case by (intro exI [of _ "store s"]) simp
next
  case (Cons call calls)
  obtain query top_k where call: "call = (query, top_k)" by (cases call)
  obtain r s1 where run: "search model s query top_k = (r, s1)"
    by (cases "search model s query top_k")
  from search_resident_frame [OF Cons.prems run]
  obtain st1 where s1: "s1 = s\<lparr>store := st1\<rparr>"
    and b: "take (length (store s)) st1 = store s" and c: "length (store s) \<le> length st1"
    by blast
  from s1 Cons.prems have "index s1 \<noteq> None" by simp
  from Cons.IH [OF this]
  obtain stn where sn: "searches model s1 calls = s1\<lparr>store := stn\<rparr>"
    and b': "take (length (store s1)) stn = store s1"
    and c': "length (store s1) \<le> length stn"
    by blast
  have "take (length (store s)) (take (length st1) stn) = store s"
    using b b' s1 by simp
  with c have "take (length (store s)) stn = store s"
    by (simp add: min_def)
  moreover have "length (store s) \<le> length stn"
    using c c' s1 by simp
  moreover have "searches model s (call # calls) = s\<lparr>store := stn\<rparr>"
    using sn s1 by (simp add: call run)
  ultimately show ?case by blast
qed

text \<open>
  C10, amended. While an index is resident in memory, \<open>search\<close> changes nothing of the
  stored state: the vector index, the chunk list, the manifest and the files are the same
  after the call, and every dict that existed before it is unchanged; this also holds
  after any sequence of calls. Every result is a newly allocated dict, a copy of a stored
  chunk dict with the score written into it (every address of the chunk list being the
  address of a dict).
\<close>

theorem search_frame:
  assumes "index s \<noteq> None"
  shows "(case search model s query top_k of
            (r, s') \<Rightarrow>
              index s' = index s \<and> chunks s' = chunks s \<and> metadata s' = metadata s \<and>
              index_path s' = index_path s \<and> chunks_path s' = chunks_path s \<and>
              metadata_path s' = metadata_path s \<and> pdf_folder s' = pdf_folder s \<and>
              take (length (store s)) (store s') = store s \<and>
              ((\<forall>c \<in> set (chunks s). c < length (store s)) \<longrightarrow>
                 (\<forall>rs. r = Inr rs \<longrightarrow>
                    (\<forall>a \<in> set rs. length (store s) \<le> a \<and> a < length (store s') \<and>
                       (\<exists>c \<in> set (chunks s). \<exists>d.
                          store s' ! a =
                            setitem (store s ! c) ''relevance_score''
                              (PyFloat (relevance_score d))))))) \<and>
         index (searches model s calls) = index s \<and>
         chunks (searches model s calls) = chunks s \<and>
         metadata (searches model s calls) = metadata s \<and>
         take (length (store s)) (store (searches model s calls)) = store s"
proof -
  obtain r s' where run: "search model s query top_k = (r, s')"
    by (cases "search model s query top_k")
  from search_resident_frame [OF assms run]
  obtain st where "s' = s\<lparr>store := st\<rparr>" "take (length (store s)) st = store s"
    by blast
  then have one: "index s' = index s \<and> chunks s' = chunks s \<and> metadata s' = metadata s \<and>
      index_path s' = index_path s \<and> chunks_path s' = chunks_path s \<and>
      metadata_path s' = metadata_path s \<and> pdf_folder s' = pdf_folder s \<and>
      take (length (store s)) (store s') = store s"
    by simp
  have copies: "\<forall>a \<in> set rs. length (store s) \<le> a \<and> a < length (store s') \<and>
      (\<exists>c \<in> set (chunks s). \<exists>d.
         store s' ! a = setitem (store s ! c) ''relevance_score'' (PyFloat (relevance_score d)))"
    if "\<forall>c \<in> set (chunks s). c < length (store s)" and "r = Inr rs" for rs
    using search_resident_copies [OF assms _ that(1), of model query top_k rs s'] run that(2)
    by simp
  from searches_frame [OF assms, of model calls]
  obtain stn where "searches model s calls = s\<lparr>store := stn\<rparr>"
    "take (length (store s)) stn = store s"
    by blast
  then have many: "index (searches model s calls) = index s \<and>
      chunks (searches model s calls) = chunks s \<and>
      metadata (searches model s calls) = metadata s \<and>
      take (length (store s)) (store (searches model s calls)) = store s"
    by simp
  from one copies many show ?thesis
    unfolding run by (simp del: split_paired_All)
qed

theorem search_frame_witness:
  "index indexed_one_pdf \<noteq> None \<and>
   fst (search length_model indexed_one_pdf (str ''machine learning'') 2) = Inr [1, 2] \<and>
   index (snd (search length_model indexed_one_pdf (str ''machine learning'') 2)) =
     index indexed_one_pdf \<and>
   chunks (snd (search length_model indexed_one_pdf (str ''machine learning'') 2)) =
     chunks indexed_one_pdf \<and>
   take (length (store indexed_one_pdf))
     (store (snd (search length_model indexed_one_pdf (str ''machine learning'') 2))) =
     store indexed_one_pdf \<and>
   list_all (\<lambda>c. c < length (store indexed_one_pdf)) (chunks indexed_one_pdf) \<and>
   store (snd (search length_model indexed_one_pdf (str ''machine learning'') 2)) ! 1 =
     setitem (store indexed_one_pdf ! 0) ''relevance_score''
       (PyFloat (relevance_score (l2sqr (length_model (str ''machine learning'')) [121]))) \<and>
   store (snd (search length_model indexed_one_pdf (str ''machine learning'') 2)) ! 2 =
     setitem (store indexed_one_pdf ! 0) ''relevance_score''
       (PyFloat (relevance_score FLT_MAX)) \<and>
   index (searches length_model indexed_one_pdf
            [(str ''machine learning'', 2), (str ''deep learning'', 1)]) =
     index indexed_one_pdf \<and>
   chunks (searches length_model indexed_one_pdf
            [(str ''machine learning'', 2), (str ''deep learning'', 1)]) =
     chunks indexed_one_pdf"
proof -
  have "index indexed_one_pdf \<noteq> None"
    by (simp add: indexed_one_pdf_def)
  from search_frame [OF this, of length_model "str ''machine learning''" 2
      "[(str ''machine learning'', 2), (str ''deep learning'', 1)]"]
  show ?thesis
    by (simp add: search_indexed_one_pdf_2 split: prod.splits)
      (simp add: indexed_one_pdf_def setitem_score)
qed

end
